theory Spec2Isabelle
  imports Main "HOL-Library.AList" "HOL-Library.Char_ord"
begin

section \<open>Strings\<close>

text \<open>
  A Python \<open>str\<close> is modelled as a \<open>string\<close>; a \<open>char\<close> stands for the code point
  of the same number (code points below 256). The operations below are the methods of
  \<open>str\<close> that \<open>convert_requirements.py\<close> calls.
\<close>

text \<open>
  The characters \<open>str.strip()\<close>, \<open>str.split()\<close> and the regular expression class
  \<open>\s\<close> treat as white space: TAB, LF, VT, FF, CR, the separators FS, GS, RS, US, the
  space, NEL and the no-break space.
\<close>

definition isspace :: "char \<Rightarrow> bool" where
  "isspace c = (c \<in> {CHR 0x09, CHR 0x0A, CHR 0x0B, CHR 0x0C, CHR 0x0D,
                      CHR 0x1C, CHR 0x1D, CHR 0x1E, CHR 0x1F, CHR 0x20, CHR 0x85, CHR 0xA0})"

text \<open>\<open>s.strip()\<close>: white space removed at both ends.\<close>

definition strip :: "string \<Rightarrow> string" where
  "strip s = rev (dropWhile isspace (rev (dropWhile isspace s)))"

text \<open>\<open>s.startswith(p)\<close>.\<close>

definition startswith :: "string \<Rightarrow> string \<Rightarrow> bool" where
  "startswith s p = (take (length p) s = p)"

text \<open>
  \<open>s.split()\<close> with no argument: the maximal runs of characters that are not white
  space, in order. The first argument is the word read so far.
\<close>

fun split_words :: "string \<Rightarrow> string \<Rightarrow> string list" where
  "split_words w [] = (if w = [] then [] else [w])"
| "split_words w (c # cs) =
     (if isspace c then (if w = [] then split_words [] cs else w # split_words [] cs)
      else split_words (w @ [c]) cs)"

definition split :: "string \<Rightarrow> string list" where
  "split s = split_words [] s"

text \<open>
  \<open>s.split(sep)\<close> for a one-character separator: the pieces between the separators,
  empty ones included. The second argument is the piece read so far.
\<close>

fun split_pieces :: "char \<Rightarrow> string \<Rightarrow> string \<Rightarrow> string list" where
  "split_pieces sep w [] = [w]"
| "split_pieces sep w (c # cs) =
     (if c = sep then w # split_pieces sep [] cs else split_pieces sep (w @ [c]) cs)"

definition split_sep :: "char \<Rightarrow> string \<Rightarrow> string list" where
  "split_sep sep s = split_pieces sep [] s"

text \<open>\<open>sep.join(xs)\<close>.\<close>

fun join_sep :: "string \<Rightarrow> string list \<Rightarrow> string" where
  "join_sep sep [] = []"
| "join_sep sep [x] = x"
| "join_sep sep (x # y # ys) = x @ sep @ join_sep sep (y # ys)"

text \<open>Trying alternatives in order, as a backtracking matcher does: the first success wins.\<close>

fun first_some :: "('a \<Rightarrow> 'b option) \<Rightarrow> 'a list \<Rightarrow> 'b option" where
  "first_some f [] = None"
| "first_some f (x # xs) = (case f x of Some y \<Rightarrow> Some y | None \<Rightarrow> first_some f xs)"

text \<open>The counts a greedy repetition tries: \<open>n\<close> first, then down to \<open>lo\<close>.\<close>

definition greedy :: "nat \<Rightarrow> nat \<Rightarrow> nat list" where
  "greedy lo n = rev [lo ..< Suc n]"

section \<open>The line parser\<close>

text \<open>
  \<open>parse_requirement_line\<close> matches the line against
  \<^verbatim>\<open>^([A-Za-z0-9_\-\.]+(?:\[[A-Za-z0-9_,\-\.]+\])?)\s*(.*)$\<close>
  with \<open>re.match\<close>. The matcher is written out as the search \<open>re\<close> performs: every
  repetition is greedy and gives characters back one at a time, the optional group is
  tried present before absent, and the first complete match is the result.
\<close>

definition ident_char :: "char \<Rightarrow> bool" where
  "ident_char c = ((CHR ''A'' \<le> c \<and> c \<le> CHR ''Z'') \<or> (CHR ''a'' \<le> c \<and> c \<le> CHR ''z'') \<or>
                   (CHR ''0'' \<le> c \<and> c \<le> CHR ''9'') \<or> c = CHR ''_'' \<or> c = CHR ''-'' \<or> c = CHR ''.'')"

definition extras_char :: "char \<Rightarrow> bool" where
  "extras_char c = (ident_char c \<or> c = CHR '','')"

text \<open>\<open>$\<close> without MULTILINE: the end of the string, or just before a final newline.\<close>

definition at_end :: "string \<Rightarrow> bool" where
  "at_end s = (s = [] \<or> s = [CHR 0x0A])"

text \<open>\<open>(.*)$\<close> on \<open>s\<close>: \<open>.\<close> is any character but the newline. The result is group 2.\<close>

definition match_rest :: "string \<Rightarrow> string option" where
  "match_rest s =
     first_some (\<lambda>n. if at_end (drop n s) then Some (take n s) else None)
       (greedy 0 (length (takeWhile (\<lambda>c. c \<noteq> CHR 0x0A) s)))"

text \<open>\<open>\s*(.*)$\<close> on \<open>s\<close>.\<close>

definition match_tail :: "string \<Rightarrow> string option" where
  "match_tail s =
     first_some (\<lambda>j. match_rest (drop j s)) (greedy 0 (length (takeWhile isspace s)))"

text \<open>
  The lengths that \<open>(?:\[[A-Za-z0-9_,\-\.]+\])?\<close> can take at the start of \<open>s\<close>, in the
  order tried: the bracketed group for each count of the inner repetition, then nothing.
\<close>

definition extras_lengths :: "string \<Rightarrow> nat list" where
  "extras_lengths s =
     (case s of
        [] \<Rightarrow> []
      | c # t \<Rightarrow>
          if c = CHR ''[''
          then map (\<lambda>m. m + 2)
                 (filter (\<lambda>m. startswith (drop m t) '']'')
                    (greedy 1 (length (takeWhile extras_char t))))
          else []) @ [0]"

text \<open>The whole pattern at the start of the line: groups 1 and 2 of the match.\<close>

definition re_match :: "string \<Rightarrow> (string \<times> string) option" where
  "re_match line =
     first_some (\<lambda>k.
        first_some (\<lambda>e.
           case match_tail (drop (k + e) line) of
             None \<Rightarrow> None
           | Some version \<Rightarrow> Some (take (k + e) line, version))
          (extras_lengths (drop k line)))
       (greedy 1 (length (takeWhile ident_char line)))"

definition could_not_parse :: "string \<Rightarrow> string" where
  "could_not_parse line = ''Warning: Could not parse requirement line: '' @ line"

text \<open>
  \<open>parse_requirement_line(line)\<close>: the pair returned and the lines printed. An empty
  group 2 is falsy, so the version is then \<open>None\<close>.
\<close>

definition parse_requirement_line :: "string \<Rightarrow> (string \<times> string option) \<times> string list" where
  "parse_requirement_line line =
     (case re_match line of
        None \<Rightarrow> ((line, None), [could_not_parse line])
      | Some (package, version) \<Rightarrow>
          ((package, if version \<noteq> [] then Some (strip version) else None), []))"

section \<open>The manifest generator\<close>

text \<open>
  The dictionary passed to \<open>generate_pyproject_toml\<close> is an association list in
  iteration order. \<open>if ver:\<close> is false for \<open>None\<close> and for the empty string.
\<close>

definition toml_header :: "string" where
  \<open>toml_header =
     ''[tool.poetry]\<newline>'' @
     ''name = "your-project-name"\<newline>'' @
     ''version = "0.1.0"\<newline>'' @
     ''description = "A short description of your project."\<newline>'' @
     ''authors = ["Your Name <you@example.com>"]\<newline>'' @
     ''\<newline>'' @
     ''[tool.poetry.dependencies]\<newline>'' @
     ''python = "^3.8"\<newline>''\<close>

definition toml_footer :: "string" where
  \<open>toml_footer =
     ''\<newline>'' @
     ''\<newline>'' @
     ''[build-system]\<newline>'' @
     ''requires = ["poetry-core>=1.0.0"]\<newline>'' @
     ''build-backend = "poetry.core.masonry.api"\<newline>''\<close>

definition dependency_line :: "string \<times> string option \<Rightarrow> string" where
  \<open>dependency_line d =
     (case d of
        (pkg, None) \<Rightarrow> pkg @ '' = "*"\<newline>''
      | (pkg, Some ver) \<Rightarrow>
          if ver \<noteq> [] then pkg @ '' = "'' @ ver @ ''"\<newline>'' else pkg @ '' = "*"\<newline>'')\<close>

definition generate_pyproject_toml :: "(string \<times> string option) list \<Rightarrow> string" where
  "generate_pyproject_toml dependencies =
     fold (\<lambda>d toml_content. toml_content @ dependency_line d) dependencies toml_header
       @ toml_footer"

section \<open>Paths\<close>

text \<open>
  The functions of \<open>os.path\<close> (its POSIX implementation) that the resolver calls.
  \<open>os.getcwd()\<close> is the argument \<open>cwd\<close>.
\<close>

definition isabs :: "string \<Rightarrow> bool" where
  "isabs s = startswith s ''/''"

text \<open>\<open>os.path.join(a, b)\<close>: an absolute \<open>b\<close> replaces \<open>a\<close>.\<close>

definition join :: "string \<Rightarrow> string \<Rightarrow> string" where
  "join a b =
     (if startswith b ''/'' then b
      else if a = [] \<or> last a = CHR ''/'' then a @ b
      else a @ ''/'' @ b)"

text \<open>\<open>head.rstrip('/')\<close>.\<close>

definition rstrip_sep :: "string \<Rightarrow> string" where
  "rstrip_sep s = rev (dropWhile (\<lambda>c. c = CHR ''/'') (rev s))"

text \<open>
  \<open>os.path.dirname(p)\<close>: everything up to the last slash, without trailing slashes
  unless it consists of slashes only.
\<close>

definition dirname :: "string \<Rightarrow> string" where
  "dirname p =
     (let head = rev (dropWhile (\<lambda>c. c \<noteq> CHR ''/'') (rev p))
      in if head \<noteq> [] \<and> head \<noteq> replicate (length head) CHR ''/'' then rstrip_sep head else head)"

text \<open>
  The loop of \<open>os.path.normpath\<close> over the components: empty components and \<open>.\<close> are
  dropped, \<open>..\<close> removes the component before it where there is one to remove.
\<close>

fun norm_comps :: "bool \<Rightarrow> string list \<Rightarrow> string list \<Rightarrow> string list" where
  "norm_comps initial_slashes new_comps [] = new_comps"
| "norm_comps initial_slashes new_comps (comp1 # comps) =
     (if comp1 = [] \<or> comp1 = ''.'' then norm_comps initial_slashes new_comps comps
      else if comp1 \<noteq> ''..'' \<or> (\<not> initial_slashes \<and> new_comps = []) \<or>
              (new_comps \<noteq> [] \<and> last new_comps = ''..'')
      then norm_comps initial_slashes (new_comps @ [comp1]) comps
      else if new_comps \<noteq> [] then norm_comps initial_slashes (butlast new_comps) comps
      else norm_comps initial_slashes new_comps comps)"

definition normpath :: "string \<Rightarrow> string" where
  "normpath path =
     (if path = [] then ''.''
      else
        let initial_slashes =
              (if startswith path ''/''
               then (if startswith path ''//'' \<and> \<not> startswith path ''///'' then 2 else 1)
               else (0::nat));
            comps = norm_comps (initial_slashes \<noteq> 0) [] (split_sep CHR ''/'' path);
            joined = replicate initial_slashes CHR ''/'' @ join_sep ''/'' comps
        in if joined = [] then ''.'' else joined)"

text \<open>\<open>os.path.abspath(path)\<close>.\<close>

definition abspath :: "string \<Rightarrow> string \<Rightarrow> string" where
  "abspath cwd path = normpath (if isabs path then path else join cwd path)"

section \<open>The include resolver\<close>

text \<open>
  The file system maps an absolute path to what is there: a text file, given as the lines
  that iterating over the open file yields, or something that exists but that \<open>open\<close>
  refuses (a directory, a file without read permission). A path that is not listed does
  not exist. The list is finite, as the set of paths of a file system is.
\<close>

datatype node = File "string list" | Unreadable

type_synonym filesystem = "(string \<times> node) list"

text \<open>The exception \<open>open\<close> raises; nothing in the program catches it.\<close>

datatype error = OSError string

text \<open>
  What a call changes: the set \<open>parsed_files\<close> that is passed down the recursion, the
  lines written by \<open>print\<close>, and the paths given to \<open>open\<close>, in order.
\<close>

record world =
  parsed_files :: "string set"
  printed :: "string list"
  opened :: "string list"

definition print :: "string \<Rightarrow> world \<Rightarrow> world" where
  "print msg w = w\<lparr>printed := printed w @ [msg]\<rparr>"

definition already_parsed :: "string \<Rightarrow> string" where
  "already_parsed p = ''Already parsed '' @ p @ '', skipping to avoid circular includes.''"

definition does_not_exist :: "string \<Rightarrow> string" where
  "does_not_exist p = ''Warning: '' @ p @ '' does not exist. Skipping.''"

definition unrecognized :: "string \<Rightarrow> string" where
  "unrecognized line = ''Unrecognized requirement line: '' @ line"

text \<open>
  \<open>parse_requirements(file_path, parsed_files)\<close>, and the loop \<open>for line in f\<close> of its
  body as \<open>parse_lines\<close>, whose arguments are the lines still to read and the list
  \<open>requirements\<close> built so far. The result is the list returned or the exception
  raised, with the world as the call leaves it. The files are taken to decode as text,
  and the interpreter's limit on the depth of recursion is left out.
\<close>

function parse_requirements ::
    "filesystem \<Rightarrow> string \<Rightarrow> string \<Rightarrow> world \<Rightarrow> (error + string list) \<times> world"
  and parse_lines ::
    "filesystem \<Rightarrow> string \<Rightarrow> string \<Rightarrow> string list \<Rightarrow> string list \<Rightarrow> world
       \<Rightarrow> (error + string list) \<times> world"
where
  "parse_requirements fs cwd file_path w =
     (let absolute_path = abspath cwd file_path in
      if absolute_path \<in> parsed_files w then (Inr [], print (already_parsed absolute_path) w)
      else
        case map_of fs absolute_path of
          None \<Rightarrow> (Inr [], print (does_not_exist absolute_path) w)
        | Some Unreadable \<Rightarrow>
            (Inl (OSError absolute_path),
             w\<lparr>parsed_files := insert absolute_path (parsed_files w)\<rparr>)
        | Some (File lines) \<Rightarrow>
            parse_lines fs cwd absolute_path lines []
              (w\<lparr>parsed_files := insert absolute_path (parsed_files w),
                 opened := opened w @ [absolute_path]\<rparr>))"
| "parse_lines fs cwd absolute_path [] requirements w = (Inr requirements, w)"
| "parse_lines fs cwd absolute_path (raw # rest) requirements w =
     (let line = strip raw in
      if line = [] \<or> startswith line ''#''
      then parse_lines fs cwd absolute_path rest requirements w
      else if startswith line ''-r'' \<or> startswith line ''--requirement''
      then
        (let parts = split line in
         if length parts = 2
         then
           (let nested_req = parts ! 1;
                nested_path = join (dirname absolute_path) nested_req
            in case parse_requirements fs cwd nested_path w of
                 (Inl e, w') \<Rightarrow> (Inl e, w')
               | (Inr nested, w') \<Rightarrow>
                   parse_lines fs cwd absolute_path rest (requirements @ nested) w')
         else parse_lines fs cwd absolute_path rest requirements (print (unrecognized line) w))
      else parse_lines fs cwd absolute_path rest (requirements @ [line]) w)"
  by pat_completeness auto

section \<open>The entry point\<close>

text \<open>
  The loop of \<open>main\<close> that fills the \<open>OrderedDict\<close>. The dictionary is an association
  list in iteration order; \<open>dependencies[pkg] = ver\<close> is \<open>AList.update\<close>, which replaces
  the value of a key that is present where it stands and appends a new key at the end.
\<close>

fun dependencies_loop ::
    "string list \<Rightarrow> (string \<times> string option) list \<times> world
       \<Rightarrow> (string \<times> string option) list \<times> world" where
  "dependencies_loop [] (dependencies, w) = (dependencies, w)"
| "dependencies_loop (req # reqs) (dependencies, w) =
     (case parse_requirement_line req of
        ((pkg, ver), msgs) \<Rightarrow>
          dependencies_loop reqs
            (AList.update pkg ver dependencies, w\<lparr>printed := printed w @ msgs\<rparr>))"

definition start :: world where
  "start = \<lparr>parsed_files = {}, printed = [], opened = []\<rparr>"

text \<open>
  The first half of \<open>main\<close>, from \<open>args.input\<close> to the filled dictionary: the call of
  the resolver from an empty set of parsed files, then the loop.
\<close>

definition read_dependencies ::
    "filesystem \<Rightarrow> string \<Rightarrow> string \<Rightarrow> (error + (string \<times> string option) list) \<times> world" where
  "read_dependencies fs cwd input =
     (case parse_requirements fs cwd input start of
        (Inl e, w) \<Rightarrow> (Inl e, w)
      | (Inr reqs, w) \<Rightarrow>
          (case dependencies_loop reqs ([], w) of
             (dependencies, w') \<Rightarrow> (Inr dependencies, w')))"

text \<open>
  \<open>main\<close> with \<open>args.input\<close> and \<open>args.output\<close>: the text written to the output file, or
  the exception of the resolver.
\<close>

definition main :: "filesystem \<Rightarrow> string \<Rightarrow> string \<Rightarrow> string \<Rightarrow> (error + string) \<times> world" where
  "main fs cwd input output =
     (case read_dependencies fs cwd input of
        (Inl e, w) \<Rightarrow> (Inl e, w)
      | (Inr dependencies, w) \<Rightarrow>
          (Inr (generate_pyproject_toml dependencies),
           print (''Successfully generated '' @ output) w))"

section \<open>Example file systems\<close>

text \<open>
  A file that includes \<open>sub.txt\<close>, which names the package \<open>a\<close> again; two files that
  include each other; a file that includes a file that does not exist; a file without
  include directives that names the package \<open>b\<close> twice; a file in \<open>/proj/reqs\<close> that
  includes one file of a directory below its own and one of the directory above.
\<close>

definition example_fs :: filesystem where
  "example_fs =
     [(''/proj/requirements.txt'', File [''a==1.0\<newline>'', ''-r sub.txt\<newline>'']),
      (''/proj/sub.txt'', File [''b==2.0\<newline>'', ''a==3.0\<newline>''])]"

definition circular_fs :: filesystem where
  "circular_fs =
     [(''/proj/a.txt'', File [''x==1\<newline>'', ''-r b.txt\<newline>'']),
      (''/proj/b.txt'', File [''-r a.txt\<newline>'', ''y==2\<newline>''])]"

definition missing_fs :: filesystem where
  "missing_fs =
     [(''/proj/requirements.txt'', File [''-r missing.txt\<newline>'', ''a==1.0\<newline>''])]"


definition nested_fs :: filesystem where
  "nested_fs =
     [(''/proj/reqs/base.txt'',
       File [''-r sub/extra.txt\<newline>'', ''c==3\<newline>'', ''-r ../common.txt\<newline>'']),
      (''/proj/reqs/sub/extra.txt'', File [''d==4\<newline>'']),
      (''/proj/common.txt'', File [''e==5\<newline>''])]"

section \<open>Notions used in the statements\<close>

text \<open>A trimmed line that the resolver takes for an include directive.\<close>

definition include_directive :: "string \<Rightarrow> bool" where
  "include_directive line = (startswith line ''-r'' \<or> startswith line ''--requirement'')"

text \<open>
  The result of the rest of a loop, after the requirements gathered before it: an
  exception stays, a list is appended to them.
\<close>

definition prepend ::
    "string list \<Rightarrow> (error + string list) \<times> world \<Rightarrow> (error + string list) \<times> world" where
  "prepend requirements r =
     (case r of
        (Inl e, w) \<Rightarrow> (Inl e, w)
      | (Inr tail, w) \<Rightarrow> (Inr (requirements @ tail), w))"

text \<open>
  A world in which no path was given to \<open>open\<close> twice, and every opened path is marked
  as parsed.
\<close>

definition read_once :: "world \<Rightarrow> bool" where
  "read_once w = (distinct (opened w) \<and> set (opened w) \<subseteq> parsed_files w)"

text \<open>The number of paths of the file system that are not marked as parsed.\<close>

definition unvisited :: "filesystem \<Rightarrow> world \<Rightarrow> nat" where
  "unvisited fs w = card (fst ` set fs - parsed_files w)"


section \<open>The specification's wording\<close>

text \<open>
  The specification's dependency line: the constraint between quotes when it is present,
  the wildcard when it is absent.
\<close>

definition spec_dependency_line :: "string \<times> string option \<Rightarrow> string" where
  \<open>spec_dependency_line d =
     (case d of
        (pkg, Some constraint) \<Rightarrow> pkg @ '' = "'' @ constraint @ ''"\<newline>''
      | (pkg, None) \<Rightarrow> pkg @ '' = "*"\<newline>'')\<close>

text \<open>
  The specification's include directive: the first word of the line is the token \<open>-r\<close> or
  the token \<open>--requirement\<close>.
\<close>

definition spec_directive_token :: "string \<Rightarrow> bool" where
  "spec_directive_token line =
     (case split line of
        [] \<Rightarrow> False
      | token # arguments \<Rightarrow> token = ''-r'' \<or> token = ''--requirement'')"

section \<open>Termination of the resolver\<close>

text \<open>
  Termination: a call that reads a file marks a path of the file system that was not
  marked before, the loop gets shorter, and no call unmarks a path.
\<close>

lemma parsed_files_print [simp]: "parsed_files (print msg w) = parsed_files w"
  by (simp add: print_def)

lemma parsed_files_grow_dom:
  "parse_requirements_parse_lines_dom (Inl (fs, cwd, file_path, w)) \<Longrightarrow>
     parsed_files w \<subseteq> parsed_files (snd (parse_requirements fs cwd file_path w))"
  "parse_requirements_parse_lines_dom (Inr (fs, cwd, absolute_path, lines, requirements, w)) \<Longrightarrow>
     parsed_files w \<subseteq> parsed_files (snd (parse_lines fs cwd absolute_path lines requirements w))"
proof (induct rule: parse_requirements_parse_lines.pinduct)
  case (1 fs cwd file_path w)
  then show ?case
    by (auto simp: parse_requirements.psimps Let_def split: option.splits node.splits)
next
  case (2 fs cwd absolute_path requirements w)
  then show ?case by (simp add: parse_lines.psimps)
next
  case (3 fs cwd absolute_path raw rest requirements w)
  note unfold = parse_lines.psimps(2)[OF "3.hyps"(1)]
  show ?case
  proof (cases "strip raw = [] \<or> startswith (strip raw) ''#''")
    case True
    from "3.hyps"(2)[OF refl True] True show ?thesis
      by (simp add: unfold)
  next
    case nc: False
    show ?thesis
    proof (cases "startswith (strip raw) ''-r'' \<or> startswith (strip raw) ''--requirement''")
      case inc: True
      show ?thesis
      proof (cases "length (split (strip raw)) = 2")
        case two: True
        obtain r w' where pr:
          "parse_requirements fs cwd (join (dirname absolute_path) (split (strip raw) ! 1)) w = (r, w')"
          by (cases "parse_requirements fs cwd (join (dirname absolute_path) (split (strip raw) ! 1)) w")
        have sub1: "parsed_files w \<subseteq> parsed_files w'"
          using "3.hyps"(3)[OF refl nc inc refl two refl refl] pr by simp
        show ?thesis
        proof (cases r)
          case (Inl e)
          with sub1 pr nc inc two show ?thesis
            by (simp add: unfold)
        next
          case (Inr nested)
          have "parsed_files w' \<subseteq>
                parsed_files (snd (parse_lines fs cwd absolute_path rest (requirements @ nested) w'))"
            using "3.hyps"(4)[OF refl nc inc refl two refl refl pr[symmetric] Inr] .
          with sub1 pr nc inc two Inr show ?thesis
            by (simp add: unfold)
        qed
      next
        case False
        from "3.hyps"(5)[OF refl nc inc refl False] nc inc False show ?thesis
          by (simp add: unfold)
      qed
    next
      case False
      from "3.hyps"(6)[OF refl nc False] nc False show ?thesis
        by (simp add: unfold)
    qed
  qed
qed

lemma unvisited_insert:
  assumes "map_of fs p = Some n" "p \<notin> parsed_files w"
  shows "unvisited fs (w\<lparr>parsed_files := insert p (parsed_files w), opened := ys\<rparr>) < unvisited fs w"
proof -
  have "p \<in> fst ` set fs" using assms(1) by (metis map_of_eq_None_iff option.distinct(1))
  then have "fst ` set fs - insert p (parsed_files w) \<subset> fst ` set fs - parsed_files w"
    using assms(2) by auto
  then show ?thesis unfolding unvisited_def by (simp add: psubset_card_mono)
qed

lemma unvisited_mono: "parsed_files w \<subseteq> parsed_files w' \<Longrightarrow> unvisited fs w' \<le> unvisited fs w"
  unfolding unvisited_def by (intro card_mono) auto

lemma resolver_terminates: "All parse_requirements_parse_lines_dom"
proof (relation "(\<lambda>x. case x of Inl (fs, cwd, p, w) \<Rightarrow> unvisited fs w
                              | Inr (fs, cwd, ap, ls, rs, w) \<Rightarrow> unvisited fs w)
                 <*mlex*>
                 measure (\<lambda>x. case x of Inl _ \<Rightarrow> 0 | Inr (fs, cwd, ap, ls, rs, w) \<Rightarrow> Suc (length ls))",
       goal_cases)
  case 1
  then show ?case by (simp add: wf_mlex)
next
  case (2 fs cwd file_path w x x2 x1)
  then show ?case by (auto intro!: mlex_less simp: unvisited_insert)
next
  case 3
  then show ?case by (auto intro!: mlex_leq)
next
  case 4
  then show ?case by (auto intro!: mlex_leq)
next
  case (5 fs cwd absolute_path raw rest requirements w x xa xb xc xd y b)
  then have "parsed_files w \<subseteq> parsed_files y"
    using parsed_files_grow_dom(1)[of fs cwd xc w] by (metis snd_conv)
  then show ?case by (auto intro!: mlex_leq unvisited_mono)
next
  case 6
  then show ?case by (auto intro!: mlex_leq simp: unvisited_def)
next
  case 7
  then show ?case by (auto intro!: mlex_leq)
qed

termination parse_requirements
  by (rule resolver_terminates)

declare parse_requirements.simps [simp del]

section \<open>Properties of the matcher\<close>

lemmas matcher_defs =
  re_match_def greedy_def ident_char_def extras_char_def extras_lengths_def match_tail_def
  match_rest_def isspace_def at_end_def strip_def startswith_def

lemmas parser_defs = parse_requirement_line_def matcher_defs

lemma greedy_Cons: "lo \<le> n \<Longrightarrow> greedy lo n = n # rev [lo ..< n]"
  by (simp add: greedy_def)

lemma first_some_hd: "f x \<noteq> None \<Longrightarrow> first_some f (x # xs) \<noteq> None"
  by (auto split: option.splits)

lemma first_some_all:
  assumes "xs \<noteq> []" and "\<And>x. x \<in> set xs \<Longrightarrow> f x \<noteq> None"
  shows "first_some f xs \<noteq> None"
proof (cases xs)
  case Nil
  with assms(1) show ?thesis by simp
next
  case (Cons a l)
  then have "f a \<noteq> None" using assms(2) by simp
  then show ?thesis unfolding Cons by (rule first_some_hd)
qed

lemma match_rest_no_newline:
  assumes "CHR 0x0A \<notin> set s"
  shows "match_rest s \<noteq> None"
proof -
  have tw: "takeWhile (\<lambda>c. c \<noteq> CHR 0x0A) s = s"
    using assms by (induction s) auto
  show ?thesis
    unfolding match_rest_def tw greedy_Cons[OF le0]
    by (rule first_some_hd) (simp add: at_end_def)
qed

lemma match_tail_no_newline:
  assumes "CHR 0x0A \<notin> set s"
  shows "match_tail s \<noteq> None"
proof -
  have "CHR 0x0A \<notin> set (drop j s)" for j
    using assms by (meson in_set_dropD)
  then have "match_rest (drop j s) \<noteq> None" for j
    by (rule match_rest_no_newline)
  then show ?thesis
    unfolding match_tail_def greedy_Cons[OF le0]
    by (intro first_some_hd)
qed

lemma extras_lengths_not_Nil: "extras_lengths s \<noteq> []"
  by (simp add: extras_lengths_def)

lemma re_match_None_iff:
  assumes "CHR 0x0A \<notin> set line"
  shows "re_match line = None \<longleftrightarrow> line = [] \<or> \<not> ident_char (hd line)"
proof
  assume "line = [] \<or> \<not> ident_char (hd line)"
  then have "takeWhile ident_char line = []"
    by (cases line) auto
  then show "re_match line = None"
    by (simp add: re_match_def greedy_def)
next
  assume none: "re_match line = None"
  show "line = [] \<or> \<not> ident_char (hd line)"
  proof (rule ccontr)
    assume "\<not> (line = [] \<or> \<not> ident_char (hd line))"
    then have "1 \<le> length (takeWhile ident_char line)"
      by (cases line) auto
    then have g: "greedy 1 (length (takeWhile ident_char line)) =
        length (takeWhile ident_char line) # rev [1 ..< length (takeWhile ident_char line)]"
      by (rule greedy_Cons)
    have tail: "match_tail (drop j line) \<noteq> None" for j
      using assms by (meson in_set_dropD match_tail_no_newline)
    have "first_some (\<lambda>e.
           case match_tail (drop (k + e) line) of
             None \<Rightarrow> None
           | Some version \<Rightarrow> Some (take (k + e) line, version))
          (extras_lengths (drop k line)) \<noteq> None" for k
      using tail by (intro first_some_all extras_lengths_not_Nil) (auto split: option.splits)
    then have "re_match line \<noteq> None"
      unfolding re_match_def g by (rule first_some_hd)
    with none show False by simp
  qed
qed

lemma first_some_None_iff: "first_some f xs = None \<longleftrightarrow> (\<forall>x\<in>set xs. f x = None)"
  by (induction xs) (auto split: option.splits)

lemma first_some_SomeD: "first_some f xs = Some y \<Longrightarrow> \<exists>x\<in>set xs. f x = Some y"
  by (induction xs) (auto split: option.splits)

lemma set_greedy: "set (greedy lo n) = {lo..n}"
  by (auto simp: greedy_def)

lemma match_rest_iff:
  "match_rest s \<noteq> None \<longleftrightarrow>
     (\<exists>n \<le> length (takeWhile (\<lambda>c. c \<noteq> CHR 0x0A) s). at_end (drop n s))"
  by (auto simp: match_rest_def first_some_None_iff set_greedy)

lemma match_rest_Nil: "match_rest [] \<noteq> None"
  by (simp add: match_rest_def greedy_def at_end_def)

lemma match_rest_tl:
  assumes "match_rest (c # t) \<noteq> None"
  shows "match_rest t \<noteq> None"
proof (cases "t = []")
  case True
  then show ?thesis by (simp add: match_rest_Nil)
next
  case False
  from assms obtain n where n: "n \<le> length (takeWhile (\<lambda>c. c \<noteq> CHR 0x0A) (c # t))"
    and e: "at_end (drop n (c # t))"
    unfolding match_rest_iff by blast
  from e False obtain n' where n': "n = Suc n'"
    by (cases n) (auto simp: at_end_def)
  with n have "c \<noteq> CHR 0x0A" and "n' \<le> length (takeWhile (\<lambda>c. c \<noteq> CHR 0x0A) t)"
    by (auto split: if_splits)
  moreover from e n' have "at_end (drop n' t)" by simp
  ultimately show ?thesis
    unfolding match_rest_iff by blast
qed

lemma match_rest_drop:
  "match_rest s \<noteq> None \<Longrightarrow> match_rest (drop j s) \<noteq> None"
proof (induction j arbitrary: s)
  case 0
  then show ?case by simp
next
  case (Suc j)
  show ?case
  proof (cases s)
    case Nil
    then show ?thesis by (simp add: match_rest_Nil)
  next
    case (Cons c t)
    with Suc.prems have "match_rest t \<noteq> None" by (simp add: match_rest_tl)
    from Suc.IH[OF this] Cons show ?thesis by simp
  qed
qed

lemma match_tail_eq: "match_tail s = match_rest (dropWhile isspace s)"
proof -
  let ?m = "length (takeWhile isspace s)"
  have d: "drop ?m s = dropWhile isspace s"
    by (rule dropWhile_eq_drop[symmetric])
  show ?thesis
  proof (cases "match_rest (drop ?m s)")
    case (Some v)
    then show ?thesis
      unfolding match_tail_def greedy_Cons[OF le0] d[symmetric] by simp
  next
    case None
    have "match_rest (drop j s) = None" if "j \<le> ?m" for j
    proof (rule ccontr)
      assume "match_rest (drop j s) \<noteq> None"
      then have "match_rest (drop (?m - j) (drop j s)) \<noteq> None"
        by (rule match_rest_drop)
      with that None show False by simp
    qed
    then have "match_tail s = None"
      by (simp add: match_tail_def first_some_None_iff set_greedy)
    with None show ?thesis
      unfolding d by simp
  qed
qed

lemma match_tail_version:
  assumes "match_tail s = Some version" and "version \<noteq> []"
  shows "strip version \<noteq> []"
proof -
  let ?s = "dropWhile isspace s"
  from assms(1) have "match_rest ?s = Some version"
    by (simp add: match_tail_eq)
  then obtain n where v: "version = take n ?s"
    unfolding match_rest_def by (auto dest!: first_some_SomeD split: if_splits)
  with assms(2) have ne: "?s \<noteq> []" by auto
  then have "\<not> isspace (hd ?s)"
    by (rule hd_dropWhile)
  moreover have "hd version = hd ?s"
    using v assms(2) by (cases ?s; cases n) auto
  ultimately have h: "\<not> isspace (hd version)" by simp
  then have "dropWhile isspace version = version"
    using assms(2) by (cases version) auto
  moreover have "dropWhile isspace (rev version) \<noteq> []"
    using h assms(2) by (simp add: dropWhile_eq_Nil_conv) (metis hd_in_set)
  ultimately show ?thesis
    by (simp add: strip_def)
qed

lemma parse_requirement_line_constraint:
  "snd (fst (parse_requirement_line line)) \<noteq> Some []"
proof (cases "re_match line")
  case None
  then show ?thesis by (simp add: parse_requirement_line_def)
next
  case (Some m)
  obtain package version where m: "m = (package, version)" by (cases m)
  from Some[unfolded re_match_def] obtain k e where
    "(case match_tail (drop (k + e) line) of None \<Rightarrow> None
      | Some version \<Rightarrow> Some (take (k + e) line, version)) = Some m"
    by (auto dest!: first_some_SomeD)
  then have "match_tail (drop (k + e) line) = Some version"
    using m by (auto split: option.splits)
  then have "version \<noteq> [] \<Longrightarrow> strip version \<noteq> []"
    by (rule match_tail_version)
  with Some m show ?thesis
    by (auto simp: parse_requirement_line_def)
qed

text \<open>A line made of an identifier, bracketed extras and a remainder without newline.\<close>

lemma match_rest_newline_free:
  assumes "CHR 0x0A \<notin> set s"
  shows "match_rest s = Some s"
proof -
  have tw: "takeWhile (\<lambda>c. c \<noteq> CHR 0x0A) s = s"
    using assms by (induction s) auto
  show ?thesis
    unfolding match_rest_def tw greedy_Cons[OF le0] by (simp add: at_end_def)
qed

lemma match_tail_newline_free:
  assumes "CHR 0x0A \<notin> set s"
  shows "match_tail s = Some (dropWhile isspace s)"
proof -
  have "CHR 0x0A \<notin> set (dropWhile isspace s)"
    using assms by (meson set_dropWhileD)
  then show ?thesis
    unfolding match_tail_eq by (rule match_rest_newline_free)
qed

lemma not_ident_char_bracket: "\<not> ident_char CHR ''[''"
  by (simp add: ident_char_def)

lemma not_extras_char_bracket: "\<not> extras_char CHR '']''"
  by (simp add: extras_char_def ident_char_def)

lemma takeWhile_stop:
  "list_all P xs \<Longrightarrow> \<not> P y \<Longrightarrow> takeWhile P (xs @ y # ys) = xs"
  by (induction xs) auto

lemma extras_lengths_bracketed:
  assumes "extras \<noteq> []" and "list_all extras_char extras"
  shows "\<exists>more. extras_lengths (CHR ''['' # extras @ CHR '']'' # rest) =
           (length extras + 2) # more"
proof -
  have tw: "takeWhile extras_char (extras @ CHR '']'' # rest) = extras"
    using assms(2) not_extras_char_bracket by (rule takeWhile_stop)
  have g: "greedy 1 (length extras) = length extras # rev [1 ..< length extras]"
    using assms(1) by (intro greedy_Cons) (simp add: Suc_leI)
  have e: "extras_lengths (CHR ''['' # extras @ CHR '']'' # rest) =
      map (\<lambda>m. m + 2)
        (filter (\<lambda>m. startswith (drop m (extras @ CHR '']'' # rest)) '']'')
           (length extras # rev [1 ..< length extras])) @ [0]"
    by (simp only: extras_lengths_def list.case refl if_True tw g)
  have st: "startswith (drop (length extras) (extras @ CHR '']'' # rest)) '']''"
    by (simp add: startswith_def)
  show ?thesis
    by (simp only: e filter.simps st if_True list.map append_Cons) blast
qed

lemma re_match_extras:
  assumes "ident \<noteq> []" and "list_all ident_char ident"
    and "extras \<noteq> []" and "list_all extras_char extras"
    and "CHR 0x0A \<notin> set rest"
  shows "re_match (ident @ ''['' @ extras @ '']'' @ rest) =
           Some (ident @ ''['' @ extras @ '']'', dropWhile isspace rest)"
proof -
  let ?line = "ident @ ''['' @ extras @ '']'' @ rest"
  have tw: "takeWhile ident_char ?line = ident"
    using takeWhile_stop[OF assms(2) not_ident_char_bracket] by simp
  have g: "greedy 1 (length ident) = length ident # rev [1 ..< length ident]"
    using assms(1) by (intro greedy_Cons) (simp add: Suc_leI)
  obtain more where el:
    "extras_lengths (drop (length ident) ?line) = (length extras + 2) # more"
    using extras_lengths_bracketed[OF assms(3,4), of rest] by auto
  have tail: "match_tail (drop (length ident + (length extras + 2)) ?line) =
                Some (dropWhile isspace rest)"
    using match_tail_newline_free[OF assms(5)] by simp
  have tk: "take (length ident + (length extras + 2)) ?line = ident @ ''['' @ extras @ '']''"
    by simp
  show ?thesis
    unfolding re_match_def tw g first_some.simps el tail tk by simp
qed

lemma strip_dropWhile: "strip (dropWhile isspace s) = strip s"
  by (simp add: strip_def)

section \<open>Properties of the line parser and of the generator\<close>

lemma fold_dependency_line:
  "fold (\<lambda>d toml_content. toml_content @ dependency_line d) deps acc =
     acc @ concat (map dependency_line deps)"
  by (induction deps arbitrary: acc) simp_all

lemma dependency_line_as_specified:
  "snd d \<noteq> Some [] \<Longrightarrow> dependency_line d = spec_dependency_line d"
  by (cases d) (auto simp: dependency_line_def spec_dependency_line_def split: option.splits)

text \<open>
  C5. The line \<open>foo==1.2.3\<close> is parsed to the package \<open>foo\<close> with the constraint
  \<open>==1.2.3\<close>, the line \<open>foo\<close> to the package \<open>foo\<close> with no constraint, and the
  generator renders the latter as the line \<open>foo = "*"\<close>.
\<close>

theorem parse_foo_and_render:
  \<open>fst (parse_requirement_line ''foo==1.2.3'') = (''foo'', Some ''==1.2.3'') \<and>
   fst (parse_requirement_line ''foo'') = (''foo'', None) \<and>
   generate_pyproject_toml [fst (parse_requirement_line ''foo'')] =
     toml_header @ ''foo = "*"\<newline>'' @ toml_footer\<close>
  by (simp add: parse_requirement_line_def generate_pyproject_toml_def dependency_line_def
      matcher_defs)

text \<open>
  C6. A bracketed extras suffix belongs to the package. For every line made of an
  identifier (one or more letters, digits, underscores, hyphens, dots), an opening
  bracket, one or more of these characters or commas, a closing bracket and a remainder
  without newline, the package is the identifier with the brackets and what is between
  them, and the constraint is the trimmed remainder, or none when the remainder is blank.
  In particular the line \<open>foo[extra1,extra2]>=1.0,<2.0\<close> is parsed to the package
  \<open>foo[extra1,extra2]\<close> with the constraint \<open>>=1.0,<2.0\<close>.
\<close>

theorem parse_extras:
  "(ident \<noteq> [] \<and> list_all ident_char ident \<and> extras \<noteq> [] \<and> list_all extras_char extras \<and>
    CHR 0x0A \<notin> set rest \<longrightarrow>
      fst (parse_requirement_line (ident @ ''['' @ extras @ '']'' @ rest)) =
        (ident @ ''['' @ extras @ '']'',
         if dropWhile isspace rest = [] then None else Some (strip rest))) \<and>
   fst (parse_requirement_line ''foo[extra1,extra2]>=1.0,<2.0'') =
     (''foo[extra1,extra2]'', Some ''>=1.0,<2.0'')"
proof (intro conjI impI)
  assume "ident \<noteq> [] \<and> list_all ident_char ident \<and> extras \<noteq> [] \<and>
    list_all extras_char extras \<and> CHR 0x0A \<notin> set rest"
  then have "re_match (ident @ ''['' @ extras @ '']'' @ rest) =
           Some (ident @ ''['' @ extras @ '']'', dropWhile isspace rest)"
    by (intro re_match_extras) simp_all
  then show "fst (parse_requirement_line (ident @ ''['' @ extras @ '']'' @ rest)) =
        (ident @ ''['' @ extras @ '']'',
         if dropWhile isspace rest = [] then None else Some (strip rest))"
    by (simp add: parse_requirement_line_def strip_dropWhile)
next
  show "fst (parse_requirement_line ''foo[extra1,extra2]>=1.0,<2.0'') =
     (''foo[extra1,extra2]'', Some ''>=1.0,<2.0'')"
    by (simp add: parse_requirement_line_def matcher_defs)
qed

theorem parse_extras_witness:
  "''requests'' \<noteq> [] \<and> list_all ident_char ''requests'' \<and> ''s'' \<noteq> [] \<and>
   list_all extras_char ''s'' \<and> CHR 0x0A \<notin> set ''  >= 2.0 '' \<and>
   fst (parse_requirement_line ''requests[s]  >= 2.0 '') = (''requests[s]'', Some ''>= 2.0'')"
proof -
  have h: "''requests'' \<noteq> [] \<and> list_all ident_char ''requests'' \<and> ''s'' \<noteq> [] \<and>
    list_all extras_char ''s'' \<and> CHR 0x0A \<notin> set ''  >= 2.0 ''"
    by (simp add: ident_char_def extras_char_def)
  have "fst (parse_requirement_line (''requests'' @ ''['' @ ''s'' @ '']'' @ ''  >= 2.0 '')) =
        (''requests'' @ ''['' @ ''s'' @ '']'',
         if dropWhile isspace ''  >= 2.0 '' = [] then None else Some (strip ''  >= 2.0 ''))"
    using parse_extras[of "''requests''" "''s''" "''  >= 2.0 ''"] h by blast
  then have "fst (parse_requirement_line ''requests[s]  >= 2.0 '') =
      (''requests[s]'', Some ''>= 2.0'')"
    by (simp add: strip_def isspace_def)
  with h show ?thesis
    by blast
qed

text \<open>
  C9. For every dependency mapping the output is the project metadata block with its
  placeholder fields, the header of the dependencies section (which ends with the fixed
  line for \<open>python\<close>), one line for each dependency in iteration order, and the
  build-system block. The line of a dependency is the package and, between quotes, the
  constraint when there is one, the wildcard when there is none; package and constraint
  are copied as they are, no quote is escaped. A constraint is a string that is not
  empty: the parser returns none for an empty remainder
  (\<open>parse_requirement_line_constraint\<close>), and the generator writes the wildcard for an
  empty string as it does for none.
\<close>

theorem generate_template:
  \<open>generate_pyproject_toml deps =
     (''[tool.poetry]\<newline>'' @
      ''name = "your-project-name"\<newline>'' @
      ''version = "0.1.0"\<newline>'' @
      ''description = "A short description of your project."\<newline>'' @
      ''authors = ["Your Name <you@example.com>"]\<newline>'' @
      ''\<newline>'' @
      ''[tool.poetry.dependencies]\<newline>'' @
      ''python = "^3.8"\<newline>'') @
     concat (map (\<lambda>(pkg, ver).
                    case ver of
                      None \<Rightarrow> pkg @ '' = "*"\<newline>''
                    | Some c \<Rightarrow> if c = [] then pkg @ '' = "*"\<newline>''
                               else pkg @ '' = "'' @ c @ ''"\<newline>'') deps) @
     (''\<newline>'' @
      ''\<newline>'' @
      ''[build-system]\<newline>'' @
      ''requires = ["poetry-core>=1.0.0"]\<newline>'' @
      ''build-backend = "poetry.core.masonry.api"\<newline>'') \<and>
   (Some [] \<notin> snd ` set deps \<longrightarrow>
      generate_pyproject_toml deps =
        (''[tool.poetry]\<newline>'' @
         ''name = "your-project-name"\<newline>'' @
         ''version = "0.1.0"\<newline>'' @
         ''description = "A short description of your project."\<newline>'' @
         ''authors = ["Your Name <you@example.com>"]\<newline>'' @
         ''\<newline>'' @
         ''[tool.poetry.dependencies]\<newline>'' @
         ''python = "^3.8"\<newline>'') @
        concat (map (\<lambda>(pkg, ver).
                       case ver of
                         Some constraint \<Rightarrow> pkg @ '' = "'' @ constraint @ ''"\<newline>''
                       | None \<Rightarrow> pkg @ '' = "*"\<newline>'') deps) @
        (''\<newline>'' @
         ''\<newline>'' @
         ''[build-system]\<newline>'' @
         ''requires = ["poetry-core>=1.0.0"]\<newline>'' @
         ''build-backend = "poetry.core.masonry.api"\<newline>''))\<close>
proof -
  have line: \<open>dependency_line =
          (\<lambda>(pkg, ver).
             case ver of
               None \<Rightarrow> pkg @ '' = "*"\<newline>''
             | Some c \<Rightarrow> if c = [] then pkg @ '' = "*"\<newline>''
                        else pkg @ '' = "'' @ c @ ''"\<newline>'')\<close>
    by (auto simp: dependency_line_def fun_eq_iff split: option.splits)
  have spec: \<open>spec_dependency_line =
          (\<lambda>(pkg, ver).
             case ver of
               Some constraint \<Rightarrow> pkg @ '' = "'' @ constraint @ ''"\<newline>''
             | None \<Rightarrow> pkg @ '' = "*"\<newline>'')\<close>
    by (auto simp: spec_dependency_line_def fun_eq_iff split: option.splits)
  have gen: "generate_pyproject_toml deps =
      toml_header @ concat (map dependency_line deps) @ toml_footer"
    by (simp add: generate_pyproject_toml_def fold_dependency_line)
  have eq: "concat (map dependency_line deps) = concat (map spec_dependency_line deps)"
    if "Some [] \<notin> snd ` set deps"
  proof -
    have "map dependency_line deps = map spec_dependency_line deps"
      using that by (intro map_cong refl dependency_line_as_specified) force
    then show ?thesis
      by (rule arg_cong)
  qed
  have imp: "Some [] \<notin> snd ` set deps \<longrightarrow>
      generate_pyproject_toml deps =
        toml_header @ concat (map spec_dependency_line deps) @ toml_footer"
    by (simp add: gen eq)
  from gen[unfolded line toml_header_def toml_footer_def]
    imp[unfolded spec toml_header_def toml_footer_def]
  show ?thesis
    by (rule conjI)
qed

theorem generate_template_witness:
  \<open>Some [] \<notin> snd ` set [(''foo'', None), (''bar[x]'', Some ''>=1.0,<2.0'')] \<and>
   generate_pyproject_toml [(''foo'', None), (''bar[x]'', Some ''>=1.0,<2.0'')] =
     ''[tool.poetry]\<newline>'' @
     ''name = "your-project-name"\<newline>'' @
     ''version = "0.1.0"\<newline>'' @
     ''description = "A short description of your project."\<newline>'' @
     ''authors = ["Your Name <you@example.com>"]\<newline>'' @
     ''\<newline>'' @
     ''[tool.poetry.dependencies]\<newline>'' @
     ''python = "^3.8"\<newline>'' @
     ''foo = "*"\<newline>'' @
     ''bar[x] = ">=1.0,<2.0"\<newline>'' @
     ''\<newline>'' @
     ''\<newline>'' @
     ''[build-system]\<newline>'' @
     ''requires = ["poetry-core>=1.0.0"]\<newline>'' @
     ''build-backend = "poetry.core.masonry.api"\<newline>''\<close>
proof -
  have h: "Some [] \<notin> snd ` set [(''foo'', None), (''bar[x]'', Some ''>=1.0,<2.0'')]"
    by simp
  from generate_template[of "[(''foo'', None), (''bar[x]'', Some ''>=1.0,<2.0'')]",
      THEN conjunct2, rule_format, OF h] h
  show ?thesis
    by simp
qed

text \<open>
  C10. Whatever the dependency mapping, the empty one included, the dependencies section
  of the output starts with the line \<open>python = "^3.8"\<close>, before the lines of the
  dependencies of the mapping.
\<close>

theorem python_line_first:
  \<open>generate_pyproject_toml deps =
     (''[tool.poetry]\<newline>'' @
      ''name = "your-project-name"\<newline>'' @
      ''version = "0.1.0"\<newline>'' @
      ''description = "A short description of your project."\<newline>'' @
      ''authors = ["Your Name <you@example.com>"]\<newline>'' @
      ''\<newline>'') @
     ''[tool.poetry.dependencies]\<newline>'' @
     ''python = "^3.8"\<newline>'' @
     concat (map dependency_line deps) @
     toml_footer\<close>
  by (simp add: generate_pyproject_toml_def fold_dependency_line toml_header_def)

section \<open>Properties of the include resolver\<close>

lemmas path_defs =
  abspath_def normpath_def join_def dirname_def isabs_def rstrip_sep_def startswith_def
  split_sep_def

lemmas line_defs = strip_def isspace_def split_def startswith_def

lemma include_directive_line:
  assumes "include_directive line"
  shows "line \<noteq> []" and "\<not> startswith line ''#''"
  using assms by (cases line; auto simp: include_directive_def startswith_def)+

lemma parse_lines_step:
  assumes "strip raw \<noteq> []" and "\<not> startswith (strip raw) ''#''"
  shows "parse_lines fs cwd absolute_path (raw # rest) requirements w =
     (if include_directive (strip raw)
      then
        if length (split (strip raw)) = 2
        then
          case parse_requirements fs cwd
                 (join (dirname absolute_path) (split (strip raw) ! 1)) w of
            (Inl e, w') \<Rightarrow> (Inl e, w')
          | (Inr nested, w') \<Rightarrow>
              parse_lines fs cwd absolute_path rest (requirements @ nested) w'
        else parse_lines fs cwd absolute_path rest requirements
               (print (unrecognized (strip raw)) w)
      else parse_lines fs cwd absolute_path rest (requirements @ [strip raw]) w)"
  using assms by (simp add: include_directive_def Let_def)

lemma parse_requirements_absent:
  assumes "map_of fs (abspath cwd file_path) = None"
  shows "parse_requirements fs cwd file_path w =
           (Inr [], print (if abspath cwd file_path \<in> parsed_files w
                           then already_parsed (abspath cwd file_path)
                           else does_not_exist (abspath cwd file_path)) w)"
  using assms by (simp add: parse_requirements.simps)

lemma parse_requirements_visited:
  "abspath cwd file_path \<in> parsed_files w \<Longrightarrow>
   parse_requirements fs cwd file_path w =
     (Inr [], print (already_parsed (abspath cwd file_path)) w)"
  by (simp add: parse_requirements.simps)

lemma example_resolved:
  "parse_requirements example_fs ''/proj'' ''requirements.txt'' start =
     (Inr [''a==1.0'', ''b==2.0'', ''a==3.0''],
      \<lparr>parsed_files = {''/proj/sub.txt'', ''/proj/requirements.txt''}, printed = [],
         opened = [''/proj/requirements.txt'', ''/proj/sub.txt'']\<rparr>)"
  by (simp add: parse_requirements.simps example_fs_def start_def path_defs line_defs Let_def)

lemma circular_resolved:
  "parse_requirements circular_fs ''/proj'' ''a.txt'' start =
     (Inr [''x==1'', ''y==2''],
      \<lparr>parsed_files = {''/proj/b.txt'', ''/proj/a.txt''},
         printed = [''Already parsed /proj/a.txt, skipping to avoid circular includes.''],
         opened = [''/proj/a.txt'', ''/proj/b.txt'']\<rparr>)"
  by (simp add: parse_requirements.simps circular_fs_def start_def path_defs line_defs Let_def
        print_def already_parsed_def)

lemma missing_resolved:
  "parse_requirements missing_fs ''/proj'' ''requirements.txt'' start =
     (Inr [''a==1.0''],
      \<lparr>parsed_files = {''/proj/requirements.txt''},
         printed = [''Warning: /proj/missing.txt does not exist. Skipping.''],
         opened = [''/proj/requirements.txt'']\<rparr>)"
  by (simp add: parse_requirements.simps missing_fs_def start_def path_defs line_defs Let_def
        print_def does_not_exist_def)

lemma prepend_Nil [simp]: "prepend [] r = r"
  by (auto simp: prepend_def split: prod.splits sum.splits)

lemma prepend_prepend [simp]: "prepend xs (prepend ys r) = prepend (xs @ ys) r"
  by (auto simp: prepend_def split: prod.splits sum.splits)

lemma prepend_Inr [simp]: "prepend xs (Inr ys, w) = (Inr (xs @ ys), w)"
  by (simp add: prepend_def)

lemma prepend_Inl [simp]: "prepend xs (Inl e, w) = (Inl e, w)"
  by (simp add: prepend_def)

lemma parse_lines_prepend:
  "parse_lines fs cwd absolute_path lines requirements w =
     prepend requirements (parse_lines fs cwd absolute_path lines [] w)"
proof (induction lines arbitrary: requirements w)
  case Nil
  show ?case by simp
next
  case (Cons raw rest)
  note unfold = parse_lines.simps(2)[of fs cwd absolute_path raw rest]
  show ?case
  proof (cases "strip raw = [] \<or> startswith (strip raw) ''#''")
    case True
    then show ?thesis
      using Cons.IH[of requirements w] by (simp add: unfold)
  next
    case nc: False
    show ?thesis
    proof (cases "startswith (strip raw) ''-r'' \<or> startswith (strip raw) ''--requirement''")
      case inc: True
      show ?thesis
      proof (cases "length (split (strip raw)) = 2")
        case two: True
        obtain r w' where pr:
          "parse_requirements fs cwd (join (dirname absolute_path) (split (strip raw) ! 1)) w = (r, w')"
          by (cases "parse_requirements fs cwd (join (dirname absolute_path) (split (strip raw) ! 1)) w")
        show ?thesis
        proof (cases r)
          case (Inl e)
          with pr nc inc two show ?thesis
            by (simp add: unfold)
        next
          case (Inr nested)
          have "parse_lines fs cwd absolute_path rest (requirements @ nested) w' =
                prepend requirements (parse_lines fs cwd absolute_path rest nested w')"
            using Cons.IH[of "requirements @ nested" w'] Cons.IH[of nested w'] by simp
          with pr nc inc two Inr show ?thesis
            by (simp add: unfold)
        qed
      next
        case False
        with nc inc show ?thesis
          using Cons.IH[of requirements "print (unrecognized (strip raw)) w"]
          by (simp add: unfold)
      qed
    next
      case False
      have "parse_lines fs cwd absolute_path rest (requirements @ [strip raw]) w =
            prepend requirements (parse_lines fs cwd absolute_path rest [strip raw] w)"
        using Cons.IH[of "requirements @ [strip raw]" w] Cons.IH[of "[strip raw]" w] by simp
      with nc False show ?thesis
        by (simp add: unfold)
    qed
  qed
qed

lemma dirname_of_file:
  assumes "CHR ''/'' \<notin> set name"
    and "last dir \<noteq> CHR ''/'' \<or> dir = replicate (length dir) CHR ''/''"
  shows "dirname (dir @ ''/'' @ name) =
           (if dir = replicate (length dir) CHR ''/'' then dir @ ''/'' else dir)"
proof -
  have "dropWhile (\<lambda>c. c \<noteq> CHR ''/'') (rev name @ CHR ''/'' # rev dir) = CHR ''/'' # rev dir"
    using assms(1) by (auto simp: dropWhile_append3 dropWhile_eq_Nil_conv)
  then have head: "rev (dropWhile (\<lambda>c. c \<noteq> CHR ''/'') (rev (dir @ ''/'' @ name))) = dir @ ''/''"
    by simp
  show ?thesis
  proof (cases "dir = replicate (length dir) CHR ''/''")
    case True
    from True have "dir @ ''/'' = replicate (length dir) CHR ''/'' @ ''/''"
      by (rule arg_cong[where f = "\<lambda>d. d @ ''/''"])
    then have "dir @ ''/'' = replicate (length (dir @ ''/'')) CHR ''/''"
      by (simp add: replicate_append_same)
    with True show ?thesis
      unfolding dirname_def head by (simp add: Let_def)
  next
    case False
    with assms(2) have l: "last dir \<noteq> CHR ''/''" by simp
    from False have ne: "dir \<noteq> []" by auto
    have "last dir \<in> set (dir @ ''/'')"
      using ne by simp
    then have nr: "dir @ ''/'' \<noteq> replicate (length (dir @ ''/'')) CHR ''/''"
      using l by (metis in_set_replicate)
    have "rstrip_sep (dir @ ''/'') = dir"
      using ne l by (cases "rev dir") (auto simp: rstrip_sep_def)
    with nr False show ?thesis
      unfolding dirname_def head by (simp add: Let_def)
  qed
qed

lemma join_dirname_of_file:
  assumes "CHR ''/'' \<notin> set name"
    and "last dir \<noteq> CHR ''/'' \<or> dir = replicate (length dir) CHR ''/''"
  shows "join (dirname (dir @ ''/'' @ name)) req =
           (if startswith req ''/'' then req else dir @ ''/'' @ req)"
proof (cases "dir = replicate (length dir) CHR ''/''")
  case True
  then show ?thesis
    unfolding dirname_of_file[OF assms] by (simp add: join_def)
next
  case False
  then have "dir \<noteq> []" by auto
  with False assms(2) show ?thesis
    unfolding dirname_of_file[OF assms] by (simp add: join_def)
qed

lemma subdirectory_resolved:
  "parse_requirements nested_fs ''/home/user'' ''/proj/reqs/base.txt'' start =
     (Inr [''d==4'', ''c==3'', ''e==5''],
      \<lparr>parsed_files =
         {''/proj/common.txt'', ''/proj/reqs/sub/extra.txt'', ''/proj/reqs/base.txt''},
         printed = [],
         opened = [''/proj/reqs/base.txt'', ''/proj/reqs/sub/extra.txt'', ''/proj/common.txt'']\<rparr>)"
  by (simp add: parse_requirements.simps nested_fs_def start_def path_defs line_defs Let_def)

text \<open>
  C1 as the specification words it fails: a line whose first word only begins with the
  characters \<open>-r\<close>, such as \<open>-requests==2\<close> or \<open>-rsub.txt\<close>, does not start with the
  token \<open>-r\<close>, yet it is not appended as a requirement; it is skipped with a diagnostic.
\<close>

theorem include_token_counterexample:
  "strip ''-requests==2\<newline>'' \<noteq> [] \<and> \<not> startswith (strip ''-requests==2\<newline>'') ''#'' \<and>
   \<not> spec_directive_token (strip ''-requests==2\<newline>'') \<and>
   parse_lines example_fs ''/proj'' ''/proj/requirements.txt'' [''-requests==2\<newline>''] [] start =
     (Inr [], print ''Unrecognized requirement line: -requests==2'' start) \<and>
   \<not> spec_directive_token (strip ''-rsub.txt\<newline>'') \<and>
   parse_lines example_fs ''/proj'' ''/proj/requirements.txt'' [''-rsub.txt\<newline>''] [] start =
     (Inr [], print ''Unrecognized requirement line: -rsub.txt'' start)"
  by (simp add: spec_directive_token_def line_defs unrecognized_def)

text \<open>
  C1, amended. The current file is \<open>name\<close> in the directory \<open>dir\<close>. For a line that is
  neither empty nor a comment once trimmed: when it starts with the characters \<open>-r\<close> or
  \<open>--requirement\<close> and consists of two words, the resolver is called on the second word,
  taken in \<open>dir\<close> unless it is an absolute path, and what it returns is appended to the
  requirements, followed by what the remaining lines give; when it starts with these
  characters and the number of words is not two, a diagnostic is printed and the line
  adds nothing; every other line is appended, trimmed, to the requirements. The directory
  is any that \<open>abspath\<close> can give: it does not end with a slash unless it consists of
  slashes only.
\<close>

theorem include_line_step:
  assumes "strip raw \<noteq> []" and "\<not> startswith (strip raw) ''#''"
    and "CHR ''/'' \<notin> set name"
    and "last dir \<noteq> CHR ''/'' \<or> dir = replicate (length dir) CHR ''/''"
  shows "parse_lines fs cwd (dir @ ''/'' @ name) (raw # rest) requirements w =
     (if (startswith (strip raw) ''-r'' \<or> startswith (strip raw) ''--requirement'') \<and>
         length (split (strip raw)) = 2
      then
        case parse_requirements fs cwd
               (if startswith (split (strip raw) ! 1) ''/'' then split (strip raw) ! 1
                else dir @ ''/'' @ split (strip raw) ! 1) w of
          (Inl e, w') \<Rightarrow> (Inl e, w')
        | (Inr nested, w') \<Rightarrow>
            prepend (requirements @ nested)
              (parse_lines fs cwd (dir @ ''/'' @ name) rest [] w')
      else if startswith (strip raw) ''-r'' \<or> startswith (strip raw) ''--requirement''
      then prepend requirements
             (parse_lines fs cwd (dir @ ''/'' @ name) rest []
                (print (unrecognized (strip raw)) w))
      else prepend (requirements @ [strip raw])
             (parse_lines fs cwd (dir @ ''/'' @ name) rest [] w))"
proof -
  let ?p = "dir @ ''/'' @ name"
  note step = parse_lines_step[OF assms(1,2), of fs cwd ?p rest requirements w,
      unfolded include_directive_def join_dirname_of_file[OF assms(3,4)]]
  let ?directive = "startswith (strip raw) ''-r'' \<or> startswith (strip raw) ''--requirement''"
  let ?target = "if startswith (split (strip raw) ! 1) ''/'' then split (strip raw) ! 1
                 else dir @ ''/'' @ split (strip raw) ! 1"
  show ?thesis
  proof (cases "?directive \<and> length (split (strip raw)) = 2")
    case True
    obtain r w' where pr: "parse_requirements fs cwd ?target w = (r, w')"
      by (cases "parse_requirements fs cwd ?target w")
    show ?thesis
    proof (cases r)
      case (Inl e)
      with True pr show ?thesis
        unfolding step by simp
    next
      case (Inr nested)
      have "parse_lines fs cwd ?p rest (requirements @ nested) w' =
              prepend (requirements @ nested) (parse_lines fs cwd ?p rest [] w')"
        by (rule parse_lines_prepend)
      with True pr Inr show ?thesis
        unfolding step by simp
    qed
  next
    case other: False
    show ?thesis
    proof (cases ?directive)
      case True
      have "parse_lines fs cwd ?p rest requirements (print (unrecognized (strip raw)) w) =
              prepend requirements
                (parse_lines fs cwd ?p rest [] (print (unrecognized (strip raw)) w))"
        by (rule parse_lines_prepend)
      with True other show ?thesis
        unfolding step by simp
    next
      case False
      have "parse_lines fs cwd ?p rest (requirements @ [strip raw]) w =
              prepend (requirements @ [strip raw]) (parse_lines fs cwd ?p rest [] w)"
        by (rule parse_lines_prepend)
      with False show ?thesis
        unfolding step by simp
    qed
  qed
qed

theorem include_line_step_witness:
  "strip ''-r sub/extra.txt\<newline>'' \<noteq> [] \<and> \<not> startswith (strip ''-r sub/extra.txt\<newline>'') ''#'' \<and>
   CHR ''/'' \<notin> set ''base.txt'' \<and> last ''/proj/reqs'' \<noteq> CHR ''/'' \<and>
   parse_lines nested_fs ''/home/user'' ''/proj/reqs/base.txt''
       [''-r sub/extra.txt\<newline>'', ''c==3\<newline>'', ''-r ../common.txt\<newline>''] [''z==0'']
       (start\<lparr>parsed_files := {''/proj/reqs/base.txt''}\<rparr>) =
     (Inr [''z==0'', ''d==4'', ''c==3'', ''e==5''],
      \<lparr>parsed_files =
         {''/proj/common.txt'', ''/proj/reqs/sub/extra.txt'', ''/proj/reqs/base.txt''},
         printed = [],
         opened = [''/proj/reqs/sub/extra.txt'', ''/proj/common.txt'']\<rparr>)"
proof -
  let ?w = "start\<lparr>parsed_files := {''/proj/reqs/base.txt''}\<rparr>"
  have h1: "strip ''-r sub/extra.txt\<newline>'' \<noteq> []" by (simp add: line_defs)
  have h2: "\<not> startswith (strip ''-r sub/extra.txt\<newline>'') ''#''" by (simp add: line_defs)
  have h3: "CHR ''/'' \<notin> set ''base.txt''" by simp
  have h4: "last ''/proj/reqs'' \<noteq> CHR ''/''" by simp
  then have h4': "last ''/proj/reqs'' \<noteq> CHR ''/'' \<or>
      ''/proj/reqs'' = replicate (length ''/proj/reqs'') CHR ''/''" by blast
  note step = include_line_step[OF h1 h2 h3 h4', of nested_fs "''/home/user''"
      "[''c==3\<newline>'', ''-r ../common.txt\<newline>'']" "[''z==0'']" ?w]
  have line: "strip ''-r sub/extra.txt\<newline>'' = ''-r sub/extra.txt''"
    and words: "split ''-r sub/extra.txt'' = [''-r'', ''sub/extra.txt'']"
    by (simp_all add: line_defs)
  have nested: "parse_requirements nested_fs ''/home/user'' ''/proj/reqs/sub/extra.txt'' ?w =
      (Inr [''d==4''], ?w\<lparr>parsed_files := {''/proj/reqs/sub/extra.txt'', ''/proj/reqs/base.txt''},
                          opened := [''/proj/reqs/sub/extra.txt'']\<rparr>)"
    by (simp add: parse_requirements.simps nested_fs_def start_def path_defs line_defs Let_def)
  have rest: "parse_lines nested_fs ''/home/user'' ''/proj/reqs/base.txt''
        [''c==3\<newline>'', ''-r ../common.txt\<newline>''] []
        (?w\<lparr>parsed_files := {''/proj/reqs/sub/extra.txt'', ''/proj/reqs/base.txt''},
             opened := [''/proj/reqs/sub/extra.txt'']\<rparr>) =
      (Inr [''c==3'', ''e==5''],
       \<lparr>parsed_files =
          {''/proj/common.txt'', ''/proj/reqs/sub/extra.txt'', ''/proj/reqs/base.txt''},
          printed = [],
          opened = [''/proj/reqs/sub/extra.txt'', ''/proj/common.txt'']\<rparr>)"
    by (simp add: parse_requirements.simps nested_fs_def start_def path_defs line_defs Let_def)
  have "parse_lines nested_fs ''/home/user'' (''/proj/reqs'' @ ''/'' @ ''base.txt'')
       (''-r sub/extra.txt\<newline>'' # [''c==3\<newline>'', ''-r ../common.txt\<newline>'']) [''z==0''] ?w =
     (Inr [''z==0'', ''d==4'', ''c==3'', ''e==5''],
      \<lparr>parsed_files =
         {''/proj/common.txt'', ''/proj/reqs/sub/extra.txt'', ''/proj/reqs/base.txt''},
         printed = [],
         opened = [''/proj/reqs/sub/extra.txt'', ''/proj/common.txt'']\<rparr>)"
    unfolding step line words
    using nested rest by (simp add: startswith_def)
  with h1 h2 h3 h4 show ?thesis
    by simp
qed

text \<open>
  C8. A path that does not exist, given at the top or in an include directive, makes the
  resolver print a diagnostic and return the empty list without raising; an include
  directive that names such a path leaves the requirements as they are, and the
  remaining lines of the including file are read as if the directive were not there.
\<close>

theorem missing_file_contributes_nothing:
  "(map_of fs (abspath cwd file_path) = None \<longrightarrow>
      parse_requirements fs cwd file_path w =
        (Inr [], print (if abspath cwd file_path \<in> parsed_files w
                        then already_parsed (abspath cwd file_path)
                        else does_not_exist (abspath cwd file_path)) w)) \<and>
   (include_directive (strip raw) \<and> length (split (strip raw)) = 2 \<and>
    nested_path = abspath cwd (join (dirname absolute_path) (split (strip raw) ! 1)) \<and>
    map_of fs nested_path = None \<longrightarrow>
      parse_lines fs cwd absolute_path (raw # rest) requirements w =
        parse_lines fs cwd absolute_path rest requirements
          (print (if nested_path \<in> parsed_files w then already_parsed nested_path
                  else does_not_exist nested_path) w))"
proof (intro conjI impI)
  assume "map_of fs (abspath cwd file_path) = None"
  then show "parse_requirements fs cwd file_path w =
        (Inr [], print (if abspath cwd file_path \<in> parsed_files w
                        then already_parsed (abspath cwd file_path)
                        else does_not_exist (abspath cwd file_path)) w)"
    by (rule parse_requirements_absent)
next
  assume a: "include_directive (strip raw) \<and> length (split (strip raw)) = 2 \<and>
    nested_path = abspath cwd (join (dirname absolute_path) (split (strip raw) ! 1)) \<and>
    map_of fs nested_path = None"
  from a have inc: "include_directive (strip raw)" by blast
  from a have two: "length (split (strip raw)) = 2" by blast
  from a have np:
    "nested_path = abspath cwd (join (dirname absolute_path) (split (strip raw) ! 1))"
    by blast
  from a have "map_of fs nested_path = None" by blast
  then have absent:
    "map_of fs (abspath cwd (join (dirname absolute_path) (split (strip raw) ! 1))) = None"
    unfolding np .
  show "parse_lines fs cwd absolute_path (raw # rest) requirements w =
        parse_lines fs cwd absolute_path rest requirements
          (print (if nested_path \<in> parsed_files w then already_parsed nested_path
                  else does_not_exist nested_path) w)"
    unfolding parse_lines_step[OF include_directive_line[OF inc]] np
      parse_requirements_absent[OF absent]
    using inc two by simp
qed

theorem missing_file_contributes_nothing_witness:
  "map_of missing_fs (abspath ''/proj'' ''absent.txt'') = None \<and>
   parse_requirements missing_fs ''/proj'' ''absent.txt'' start =
     (Inr [], print ''Warning: /proj/absent.txt does not exist. Skipping.'' start) \<and>
   include_directive (strip ''-r missing.txt\<newline>'') \<and>
   length (split (strip ''-r missing.txt\<newline>'')) = 2 \<and>
   map_of missing_fs ''/proj/missing.txt'' = None \<and>
   parse_lines missing_fs ''/proj'' ''/proj/requirements.txt''
       [''-r missing.txt\<newline>'', ''a==1.0\<newline>''] [] start =
     (Inr [''a==1.0''], print ''Warning: /proj/missing.txt does not exist. Skipping.'' start)"
proof -
  have h1: "map_of missing_fs (abspath ''/proj'' ''absent.txt'') = None"
    by (simp add: missing_fs_def path_defs)
  have h2: "include_directive (strip ''-r missing.txt\<newline>'')"
    by (simp add: include_directive_def line_defs)
  have h3: "length (split (strip ''-r missing.txt\<newline>'')) = 2"
    by (simp add: line_defs)
  have h4: "''/proj/missing.txt'' =
      abspath ''/proj'' (join (dirname ''/proj/requirements.txt'') (split (strip ''-r missing.txt\<newline>'') ! 1))"
    by (simp add: line_defs path_defs)
  have h5: "map_of missing_fs ''/proj/missing.txt'' = None"
    by (simp add: missing_fs_def)
  have rest: "parse_lines missing_fs ''/proj'' ''/proj/requirements.txt'' [''a==1.0\<newline>''] [] w =
      (Inr [''a==1.0''], w)" for w
    by (simp add: line_defs)
  have top: "parse_requirements missing_fs ''/proj'' ''absent.txt'' start =
        (Inr [], print (if abspath ''/proj'' ''absent.txt'' \<in> parsed_files start
                        then already_parsed (abspath ''/proj'' ''absent.txt'')
                        else does_not_exist (abspath ''/proj'' ''absent.txt'')) start)"
    using missing_file_contributes_nothing[of missing_fs "''/proj''" "''absent.txt''" start] h1
    by blast
  have step: "parse_lines missing_fs ''/proj'' ''/proj/requirements.txt''
       (''-r missing.txt\<newline>'' # [''a==1.0\<newline>'']) [] start =
     parse_lines missing_fs ''/proj'' ''/proj/requirements.txt'' [''a==1.0\<newline>''] []
       (print (if ''/proj/missing.txt'' \<in> parsed_files start
               then already_parsed ''/proj/missing.txt''
               else does_not_exist ''/proj/missing.txt'') start)"
    using missing_file_contributes_nothing[of missing_fs "''/proj''" "''absent.txt''" start
      "''-r missing.txt\<newline>''" "''/proj/missing.txt''" "''/proj/requirements.txt''"
      "[''a==1.0\<newline>'']" "[]"] h2 h3 h4 h5
    by blast
  have top': "parse_requirements missing_fs ''/proj'' ''absent.txt'' start =
     (Inr [], print ''Warning: /proj/absent.txt does not exist. Skipping.'' start)"
    unfolding top by (simp add: start_def does_not_exist_def path_defs)
  have step': "parse_lines missing_fs ''/proj'' ''/proj/requirements.txt''
       [''-r missing.txt\<newline>'', ''a==1.0\<newline>''] [] start =
     (Inr [''a==1.0''], print ''Warning: /proj/missing.txt does not exist. Skipping.'' start)"
    unfolding step rest by (simp add: start_def does_not_exist_def)
  from h1 h2 h3 h5 top' step' show ?thesis
    by blast
qed

lemma read_once_print [simp]: "read_once (print msg w) = read_once w"
  by (simp add: read_once_def print_def)

lemma read_once_preserved:
  "read_once w \<Longrightarrow> read_once (snd (parse_requirements fs cwd file_path w))"
  "read_once w \<Longrightarrow> read_once (snd (parse_lines fs cwd absolute_path lines requirements w))"
proof (induct fs cwd file_path w and fs cwd absolute_path lines requirements w
       rule: parse_requirements_parse_lines.induct)
  case (1 fs cwd file_path w)
  let ?p = "abspath cwd file_path"
  show ?case
  proof (cases "?p \<in> parsed_files w")
    case True
    with 1(2) show ?thesis by (simp add: parse_requirements.simps Let_def)
  next
    case new: False
    show ?thesis
    proof (cases "map_of fs ?p")
      case None
      with new 1(2) show ?thesis by (simp add: parse_requirements.simps Let_def)
    next
      case (Some n)
      show ?thesis
      proof (cases n)
        case (File lines)
        let ?w = "w\<lparr>parsed_files := insert ?p (parsed_files w), opened := opened w @ [?p]\<rparr>"
        have "read_once ?w" using 1(2) new by (auto simp: read_once_def)
        from 1(1)[OF refl new Some File this] new Some File show ?thesis
          by (simp add: parse_requirements.simps Let_def)
      next
        case Unreadable
        with new Some 1(2) show ?thesis
          by (auto simp: parse_requirements.simps read_once_def Let_def)
      qed
    qed
  qed
next
  case (2 fs cwd absolute_path requirements w)
  then show ?case by simp
next
  case (3 fs cwd absolute_path raw rest requirements w)
  note unfold = parse_lines.simps(2)[of fs cwd absolute_path raw rest requirements w]
  note ro = "3.prems"
  show ?case
  proof (cases "strip raw = [] \<or> startswith (strip raw) ''#''")
    case True
    from "3.hyps"(1)[OF refl True ro] True show ?thesis
      by (simp add: unfold)
  next
    case nc: False
    show ?thesis
    proof (cases "startswith (strip raw) ''-r'' \<or> startswith (strip raw) ''--requirement''")
      case inc: True
      show ?thesis
      proof (cases "length (split (strip raw)) = 2")
        case two: True
        obtain r w' where pr:
          "parse_requirements fs cwd (join (dirname absolute_path) (split (strip raw) ! 1)) w = (r, w')"
          by (cases "parse_requirements fs cwd (join (dirname absolute_path) (split (strip raw) ! 1)) w")
        have ro': "read_once w'"
          using "3.hyps"(2)[OF refl nc inc refl two refl refl ro] pr by simp
        show ?thesis
        proof (cases r)
          case (Inl e)
          with ro' pr nc inc two show ?thesis
            by (simp add: unfold)
        next
          case (Inr nested)
          have "read_once (snd (parse_lines fs cwd absolute_path rest (requirements @ nested) w'))"
            using "3.hyps"(3)[OF refl nc inc refl two refl refl pr[symmetric] Inr ro'] .
          with pr nc inc two Inr show ?thesis
            by (simp add: unfold)
        qed
      next
        case False
        from "3.hyps"(4)[OF refl nc inc refl False] ro nc inc False show ?thesis
          by (simp add: unfold)
      qed
    next
      case False
      from "3.hyps"(5)[OF refl nc False ro] nc False show ?thesis
        by (simp add: unfold)
    qed
  qed
qed

lemma read_once_start: "read_once start"
  by (simp add: read_once_def start_def)

text \<open>
  C3. Include resolution terminates on every input: every call lies in the domain on
  which the recursion is well-founded. A path that is already marked as parsed
  contributes the empty list after a diagnostic, and no path is given to \<open>open\<close> twice:
  a call keeps the list of opened paths free of repetitions, and a call at the top, which
  starts from the empty set, ends with such a list.
\<close>

theorem resolver_terminates_reads_once:
  "parse_requirements_parse_lines_dom (Inl (fs, cwd, file_path, w)) \<and>
   (abspath cwd file_path \<in> parsed_files w \<longrightarrow>
      parse_requirements fs cwd file_path w =
        (Inr [], print (already_parsed (abspath cwd file_path)) w)) \<and>
   (read_once w \<longrightarrow> read_once (snd (parse_requirements fs cwd file_path w))) \<and>
   distinct (opened (snd (parse_requirements fs cwd file_path start)))"
proof -
  have "read_once (snd (parse_requirements fs cwd file_path start))"
    using read_once_start by (rule read_once_preserved(1))
  then have "distinct (opened (snd (parse_requirements fs cwd file_path start)))"
    by (simp add: read_once_def)
  moreover have "parse_requirements_parse_lines_dom (Inl (fs, cwd, file_path, w))"
    using resolver_terminates by simp
  ultimately show ?thesis
    by (simp add: parse_requirements_visited read_once_preserved(1))
qed

theorem resolver_terminates_reads_once_witness:
  "abspath ''/proj'' ''a.txt'' \<in> parsed_files (start\<lparr>parsed_files := {''/proj/a.txt''}\<rparr>) \<and>
   parse_requirements circular_fs ''/proj'' ''a.txt'' (start\<lparr>parsed_files := {''/proj/a.txt''}\<rparr>) =
     (Inr [], print ''Already parsed /proj/a.txt, skipping to avoid circular includes.''
                (start\<lparr>parsed_files := {''/proj/a.txt''}\<rparr>)) \<and>
   read_once start \<and>
   read_once (snd (parse_requirements circular_fs ''/proj'' ''a.txt'' start)) \<and>
   parse_requirements circular_fs ''/proj'' ''a.txt'' start =
     (Inr [''x==1'', ''y==2''],
      \<lparr>parsed_files = {''/proj/b.txt'', ''/proj/a.txt''},
         printed = [''Already parsed /proj/a.txt, skipping to avoid circular includes.''],
         opened = [''/proj/a.txt'', ''/proj/b.txt'']\<rparr>)"
proof -
  have h1: "abspath ''/proj'' ''a.txt'' \<in> parsed_files (start\<lparr>parsed_files := {''/proj/a.txt''}\<rparr>)"
    by (simp add: path_defs)
  have p: "abspath ''/proj'' ''a.txt'' = ''/proj/a.txt''"
    by (simp add: path_defs)
  note inst1 = resolver_terminates_reads_once[of circular_fs "''/proj''" "''a.txt''"
      "start\<lparr>parsed_files := {''/proj/a.txt''}\<rparr>"]
  note inst2 = resolver_terminates_reads_once[of circular_fs "''/proj''" "''a.txt''" start]
  have again: "parse_requirements circular_fs ''/proj'' ''a.txt'' (start\<lparr>parsed_files := {''/proj/a.txt''}\<rparr>) =
     (Inr [], print (already_parsed (abspath ''/proj'' ''a.txt'')) (start\<lparr>parsed_files := {''/proj/a.txt''}\<rparr>))"
    using inst1 h1 by blast
  have once: "read_once (snd (parse_requirements circular_fs ''/proj'' ''a.txt'' start))"
    using inst2 read_once_start by blast
  have again': "parse_requirements circular_fs ''/proj'' ''a.txt'' (start\<lparr>parsed_files := {''/proj/a.txt''}\<rparr>) =
     (Inr [], print ''Already parsed /proj/a.txt, skipping to avoid circular includes.''
                (start\<lparr>parsed_files := {''/proj/a.txt''}\<rparr>))"
    unfolding again p by (simp add: already_parsed_def)
  from h1 again' read_once_start once circular_resolved show ?thesis
    by blast
qed

text \<open>
  C4. When the top-level file holds the lines \<open>a==1.0\<close> and \<open>-r sub.txt\<close> and \<open>sub.txt\<close>
  holds \<open>b==2.0\<close> and \<open>a==3.0\<close>, the resolved lines are \<open>a==1.0\<close>, \<open>b==2.0\<close>, \<open>a==3.0\<close>,
  the dictionary binds \<open>a\<close> to \<open>==3.0\<close> and \<open>b\<close> to \<open>==2.0\<close>, and the output is the
  header, the two lines of these dependencies and the build-system block.
\<close>

theorem nested_example:
  \<open>fst (parse_requirements example_fs ''/proj'' ''requirements.txt'' start) =
     Inr [''a==1.0'', ''b==2.0'', ''a==3.0''] \<and>
   fst (read_dependencies example_fs ''/proj'' ''requirements.txt'') =
     Inr [(''a'', Some ''==3.0''), (''b'', Some ''==2.0'')] \<and>
   fst (main example_fs ''/proj'' ''requirements.txt'' ''pyproject.toml'') =
     Inr (toml_header @ ''a = "==3.0"\<newline>'' @ ''b = "==2.0"\<newline>'' @ toml_footer)\<close>
proof -
  have deps: "fst (read_dependencies example_fs ''/proj'' ''requirements.txt'') =
     Inr [(''a'', Some ''==3.0''), (''b'', Some ''==2.0'')]"
    by (simp add: read_dependencies_def example_resolved parser_defs)
  then obtain w where
    "read_dependencies example_fs ''/proj'' ''requirements.txt'' =
       (Inr [(''a'', Some ''==3.0''), (''b'', Some ''==2.0'')], w)"
    by (cases "read_dependencies example_fs ''/proj'' ''requirements.txt''") simp
  then show ?thesis
    by (simp add: main_def example_resolved generate_pyproject_toml_def dependency_line_def)
qed

section \<open>Lines that the pattern does not match\<close>

text \<open>
  C7. For a line that the pattern does not match, the parser prints a diagnostic and
  returns the whole line as the package, with no constraint; it is a total function, and
  the loop of \<open>main\<close> stores the line and goes on with the remaining lines. A line without
  a newline character fails to match exactly when it does not start with a letter, a
  digit, an underscore, a hyphen or a dot.
\<close>

theorem unparseable_line:
  "(re_match line = None \<longrightarrow>
      parse_requirement_line line = ((line, None), [could_not_parse line]) \<and>
      dependencies_loop (line # reqs) (dependencies, w) =
        dependencies_loop reqs
          (AList.update line None dependencies,
           w\<lparr>printed := printed w @ [could_not_parse line]\<rparr>)) \<and>
   (CHR 0x0A \<notin> set line \<longrightarrow>
      (re_match line = None) = (line = [] \<or> \<not> ident_char (hd line)))"
  using re_match_None_iff[of line] by (simp add: parse_requirement_line_def)

theorem unparseable_line_witness:
  "re_match ''==1.0'' = None \<and> CHR 0x0A \<notin> set ''==1.0'' \<and> \<not> ident_char (hd ''==1.0'') \<and>
   parse_requirement_line ''==1.0'' =
     ((''==1.0'', None), [''Warning: Could not parse requirement line: ==1.0'']) \<and>
   fst (dependencies_loop [''==1.0'', ''foo>=2''] ([], start)) =
     [(''==1.0'', None), (''foo'', Some ''>=2'')]"
proof -
  have h1: "re_match ''==1.0'' = None"
    by (simp add: matcher_defs)
  have h2: "CHR 0x0A \<notin> set ''==1.0''"
    by simp
  have h3: "\<not> ident_char (hd ''==1.0'')"
    using unparseable_line[of "''==1.0''"] h1 h2 by blast
  have p: "parse_requirement_line ''==1.0'' = ((''==1.0'', None), [could_not_parse ''==1.0''])"
    using unparseable_line[of "''==1.0''"] h1 by blast
  have l: "dependencies_loop (''==1.0'' # [''foo>=2'']) ([], start) =
        dependencies_loop [''foo>=2'']
          (AList.update ''==1.0'' None [],
           start\<lparr>printed := printed start @ [could_not_parse ''==1.0'']\<rparr>)"
    using unparseable_line[of "''==1.0''" "[''foo>=2'']" "[]" start] h1 by blast
  have p': "parse_requirement_line ''==1.0'' =
     ((''==1.0'', None), [''Warning: Could not parse requirement line: ==1.0''])"
    unfolding p by (simp add: could_not_parse_def)
  have l': "fst (dependencies_loop [''==1.0'', ''foo>=2''] ([], start)) =
     [(''==1.0'', None), (''foo'', Some ''>=2'')]"
    unfolding l by (simp add: parser_defs)
  from h1 h2 h3 p' l' show ?thesis
    by blast
qed

section \<open>The dictionary that main builds\<close>









section \<open>The constraints that main passes to the generator\<close>

text \<open>
  The parser never returns an empty constraint: the white space before group 2 is
  consumed by \<open>\s*\<close>, so a group 2 that is not empty starts with a character that
  \<open>strip\<close> keeps. On the dictionaries that \<open>main\<close> builds, the generator therefore writes
  the lines of \<open>spec_dependency_line\<close>.
\<close>

lemma dependencies_loop_constraints:
  "Some [] \<notin> snd ` set deps \<Longrightarrow>
   Some [] \<notin> snd ` set (fst (dependencies_loop reqs (deps, w)))"
proof (induction reqs arbitrary: deps w)
  case Nil
  then show ?case by simp
next
  case (Cons req reqs)
  obtain pkg ver msgs where p: "parse_requirement_line req = ((pkg, ver), msgs)"
    by (metis surj_pair)
  then have "ver \<noteq> Some []"
    using parse_requirement_line_constraint[of req] by simp
  with Cons.prems have "Some [] \<notin> snd ` set (AList.update pkg ver deps)"
    by (induction deps) auto
  from Cons.IH[OF this] p show ?case by simp
qed

lemma main_renders_as_specified:
  assumes "fst (read_dependencies fs cwd input) = Inr deps"
  shows "fst (main fs cwd input output) =
           Inr (toml_header @ concat (map spec_dependency_line deps) @ toml_footer)"
proof -
  obtain w where rd: "read_dependencies fs cwd input = (Inr deps, w)"
    using assms by (cases "read_dependencies fs cwd input") simp
  then have "\<exists>reqs w0. deps = fst (dependencies_loop reqs ([], w0))"
    by (auto simp: read_dependencies_def split: prod.splits sum.splits) (metis fst_conv)
  then obtain reqs w0 where "deps = fst (dependencies_loop reqs ([], w0))"
    by blast
  then have "Some [] \<notin> snd ` set deps"
    using dependencies_loop_constraints[of "[]" reqs w0] by simp
  then have "map dependency_line deps = map spec_dependency_line deps"
    by (intro map_cong refl dependency_line_as_specified) force
  then have "concat (map dependency_line deps) = concat (map spec_dependency_line deps)"
    by (rule arg_cong)
  with rd show ?thesis
    by (simp add: main_def generate_pyproject_toml_def fold_dependency_line)
qed

end
